theory Spec2Isabelle
  imports Complex_Main "HOL-Library.Multiset"
begin

section \<open>JavaScript numbers\<close>

text \<open>
  The analytics code of the dashboard (\<open>probabilityScale\<close>, \<open>computeMetrics\<close>,
  \<open>buildProfitCurve\<close>, and the inlined copy in \<open>calculateExpectedValue\<close>) computes on
  JavaScript numbers.  A number is modelled as an exact real or one of the three special
  values of IEEE arithmetic.  The special values follow JavaScript: \<open>1 / 0\<close> is
  \<open>Infinity\<close>, \<open>0 * Infinity\<close> and \<open>Infinity - Infinity\<close> are \<open>NaN\<close>, every
  comparison with \<open>NaN\<close> is false.  The operations of this section compute finite
  results exactly.  The operations that round every finite result to binary64, and the
  engine over them, follow further down; they are used for the properties that depend on
  the rounding.  The sign of zero is not modelled.
\<close>

datatype jsnum = Num real | PosInf | NegInf | NaN

fun isFinite :: "jsnum \<Rightarrow> bool" where
  "isFinite (Num r) = True"
| "isFinite _ = False"


fun jneg :: "jsnum \<Rightarrow> jsnum" where
  "jneg (Num a) = Num (- a)"
| "jneg PosInf = NegInf"
| "jneg NegInf = PosInf"
| "jneg NaN = NaN"

fun jadd :: "jsnum \<Rightarrow> jsnum \<Rightarrow> jsnum" where
  "jadd NaN _ = NaN"
| "jadd _ NaN = NaN"
| "jadd (Num a) (Num b) = Num (a + b)"
| "jadd PosInf NegInf = NaN"
| "jadd NegInf PosInf = NaN"
| "jadd PosInf _ = PosInf"
| "jadd _ PosInf = PosInf"
| "jadd NegInf _ = NegInf"
| "jadd _ NegInf = NegInf"

definition jsub :: "jsnum \<Rightarrow> jsnum \<Rightarrow> jsnum" where
  "jsub a b = jadd a (jneg b)"

text \<open>An infinity of the given sign times (or divided by) a finite number.\<close>

definition infTimes :: "bool \<Rightarrow> real \<Rightarrow> jsnum" where
  "infTimes pos a = (if a = 0 then NaN else if (0 < a) = pos then PosInf else NegInf)"

fun jmul :: "jsnum \<Rightarrow> jsnum \<Rightarrow> jsnum" where
  "jmul NaN _ = NaN"
| "jmul _ NaN = NaN"
| "jmul (Num a) (Num b) = Num (a * b)"
| "jmul (Num a) PosInf = infTimes True a"
| "jmul (Num a) NegInf = infTimes False a"
| "jmul PosInf (Num b) = infTimes True b"
| "jmul NegInf (Num b) = infTimes False b"
| "jmul PosInf PosInf = PosInf"
| "jmul NegInf NegInf = PosInf"
| "jmul PosInf NegInf = NegInf"
| "jmul NegInf PosInf = NegInf"

fun jdiv :: "jsnum \<Rightarrow> jsnum \<Rightarrow> jsnum" where
  "jdiv NaN _ = NaN"
| "jdiv _ NaN = NaN"
| "jdiv (Num a) (Num b) = (if b = 0 then infTimes True a else Num (a / b))"
| "jdiv (Num a) _ = Num 0"
| "jdiv PosInf (Num b) = (if 0 \<le> b then PosInf else NegInf)"
| "jdiv NegInf (Num b) = (if 0 \<le> b then NegInf else PosInf)"
| "jdiv _ _ = NaN"

fun jabs :: "jsnum \<Rightarrow> jsnum" where
  "jabs (Num a) = Num \<bar>a\<bar>"
| "jabs NaN = NaN"
| "jabs _ = PosInf"

fun jlt :: "jsnum \<Rightarrow> jsnum \<Rightarrow> bool" where
  "jlt NaN _ = False"
| "jlt _ NaN = False"
| "jlt (Num a) (Num b) = (a < b)"
| "jlt _ NegInf = False"
| "jlt PosInf _ = False"
| "jlt _ _ = True"

definition jgt :: "jsnum \<Rightarrow> jsnum \<Rightarrow> bool" where
  "jgt a b = jlt b a"

fun jge :: "jsnum \<Rightarrow> jsnum \<Rightarrow> bool" where
  "jge NaN _ = False"
| "jge _ NaN = False"
| "jge (Num a) (Num b) = (b \<le> a)"
| "jge PosInf _ = True"
| "jge _ NegInf = True"
| "jge _ _ = False"

text \<open>\<open>Math.max\<close>: \<open>NaN\<close> when either argument is \<open>NaN\<close>.\<close>

fun jmax :: "jsnum \<Rightarrow> jsnum \<Rightarrow> jsnum" where
  "jmax NaN _ = NaN"
| "jmax _ NaN = NaN"
| "jmax a b = (if jge a b then a else b)"

section \<open>Data model\<close>

text \<open>
  A card as the card source delivers it.  The engine reads \<open>fmv\<close> and \<open>probability\<close>
  through \<open>Number(...)\<close>; the fields hold the coerced numbers (a field that is not
  numeric is \<open>NaN\<close>).  \<open>title\<close> stands for the display metadata.
\<close>

record card =
  title :: string
  fmv :: jsnum
  probability :: jsnum

text \<open>What \<open>calculateExpectedValue\<close> (the command-line report) returns.\<close>

record evReport =
  tier :: string
  expectedCardValue :: jsnum
  medianCardValue :: jsnum
  costOfPack :: jsnum
  expectedProfit :: jsnum
  evPercent :: jsnum
  profitPercent :: jsnum
  oddsOverCostPercent :: jsnum

text \<open>What \<open>computeMetrics\<close> returns.\<close>

record metrics =
  expectedValue :: jsnum
  medianValue :: jsnum
  oddsOverCost :: jsnum
  costOfPack :: jsnum
  profit :: jsnum
  evPercent :: jsnum
  profitPercent :: jsnum
  medianPercent :: jsnum
  probScale :: jsnum

record curvePoint =
  x :: jsnum
  y :: jsnum
  profitPct :: jsnum

section \<open>The engine\<close>

subsection \<open>\<open>probabilityScale\<close>\<close>

text \<open>\<open>rawSum\<close> is the \<open>reduce\<close> that adds the probabilities, from \<open>0\<close>, in the order of the cards.\<close>

definition rawSum :: "card list \<Rightarrow> jsnum" where
  "rawSum cards = foldl (\<lambda>sum card. jadd sum (probability card)) (Num 0) cards"

definition probabilityScale :: "card list \<Rightarrow> jsnum" where
  "probabilityScale cards =
     (if jlt (jabs (jsub (rawSum cards) (Num 1))) (Num (1 / 1000000)) then Num 1
      else if jlt (jabs (jsub (rawSum cards) (Num 100))) (Num (1 / 100)) then Num (1 / 100)
      else jdiv (Num 1) (rawSum cards))"

subsection \<open>Sorting by \<open>fmv\<close>\<close>

text \<open>
  \<open>[...cards].sort((a, b) => Number(a.fmv) - Number(b.fmv))\<close>: a stable sort; \<open>b\<close> goes
  before \<open>a\<close> exactly when the comparator's result is greater than zero.  When an
  \<open>fmv\<close> is \<open>NaN\<close> the comparator is not consistent and JavaScript leaves the order to
  the implementation; the model is then one possible order.
\<close>

definition compareFmv :: "card \<Rightarrow> card \<Rightarrow> jsnum" where
  "compareFmv a b = jsub (fmv a) (fmv b)"

fun insertCard :: "card \<Rightarrow> card list \<Rightarrow> card list" where
  "insertCard c [] = [c]"
| "insertCard c (d # ds) =
     (if jgt (compareFmv c d) (Num 0) then d # insertCard c ds else c # d # ds)"

definition sortCards :: "card list \<Rightarrow> card list" where
  "sortCards cards = foldr insertCard cards []"

subsection \<open>\<open>computeMetrics\<close>\<close>

text \<open>
  \<open>priceUsd\<close> is the number that \<open>Number(priceUsd)\<close> gives.  The two \<open>reduce\<close> calls and
  the loop of the function are \<open>expectedValueOf\<close>, \<open>oddsSum\<close> and \<open>medianLoop\<close>; the
  function has no \<open>throw\<close> and no other way to fail.
\<close>

definition expectedValueOf :: "card list \<Rightarrow> jsnum \<Rightarrow> jsnum" where
  "expectedValueOf cards scale =
     foldl (\<lambda>sum card. jadd sum (jmul (jmul (probability card) scale) (fmv card))) (Num 0) cards"

text \<open>The \<open>for ... of\<close> loop over the sorted copy, with its \<open>break\<close>.\<close>

fun medianLoop :: "card list \<Rightarrow> jsnum \<Rightarrow> jsnum \<Rightarrow> jsnum" where
  "medianLoop [] scale cumulative = Num 0"
| "medianLoop (c # rest) scale cumulative =
     (let cumulative' = jadd cumulative (jmul (probability c) scale)
      in if jge cumulative' (Num (1 / 2)) then fmv c
         else medianLoop rest scale cumulative')"

definition oddsSum :: "card list \<Rightarrow> jsnum \<Rightarrow> jsnum \<Rightarrow> jsnum" where
  "oddsSum cards cost scale =
     foldl (\<lambda>sum card. if jge (fmv card) cost
                        then jadd sum (jmul (probability card) scale) else sum) (Num 0) cards"

definition computeMetrics :: "card list \<Rightarrow> jsnum \<Rightarrow> metrics" where
  "computeMetrics cards priceUsd =
     (let costOfPack = priceUsd;
          scale = probabilityScale cards;
          expectedValue = expectedValueOf cards scale;
          sorted = sortCards cards;
          medianValue = medianLoop sorted scale (Num 0);
          oddsOverCost = jmul (oddsSum cards costOfPack scale) (Num 100);
          profit = jsub expectedValue costOfPack;
          evPercent = jmul (jdiv expectedValue costOfPack) (Num 100);
          profitPercent = jmul (jdiv profit costOfPack) (Num 100);
          medianPercent = jmul (jdiv (jsub medianValue costOfPack) costOfPack) (Num 100)
      in \<lparr> expectedValue = expectedValue, medianValue = medianValue,
           oddsOverCost = oddsOverCost, costOfPack = costOfPack, profit = profit,
           evPercent = evPercent, profitPercent = profitPercent,
           medianPercent = medianPercent, probScale = scale \<rparr>)"

subsection \<open>\<open>buildProfitCurve\<close>\<close>

text \<open>
  \<open>sorted.map(card => ...)\<close> with the captured variable \<open>tailProb\<close>, which every call of
  the callback reads and then decrements: the variable is passed along.
\<close>

fun curveLoop :: "card list \<Rightarrow> jsnum \<Rightarrow> jsnum \<Rightarrow> jsnum \<Rightarrow> curvePoint list" where
  "curveLoop [] priceUsd scale tailProb = []"
| "curveLoop (c # rest) priceUsd scale tailProb =
     (let value = jmax (fmv c) (Num (1 / 100));
          profitPct = jmul (jdiv (jsub value priceUsd) priceUsd) (Num 100);
          y = jmul tailProb (Num 100);
          tailProb' = jsub tailProb (jmul (probability c) scale)
      in \<lparr> x = value, y = y, profitPct = profitPct \<rparr> # curveLoop rest priceUsd scale tailProb')"

definition buildProfitCurve :: "card list \<Rightarrow> jsnum \<Rightarrow> jsnum \<Rightarrow> curvePoint list" where
  "buildProfitCurve cards priceUsd scale =
     (let sorted = sortCards cards;
          tailProb = foldl (\<lambda>sum card. jadd sum (jmul (probability card) scale)) (Num 0) sorted
      in curveLoop sorted priceUsd scale tailProb)"

subsection \<open>\<open>calculateExpectedValue\<close>\<close>

text \<open>
  The command-line script inlines the same computation.  The model starts after the two
  fetches, from the tier's name, its cards (\<open>payload.data\<close>) and its price
  (\<open>Number(prices.data[tier].priceUsd)\<close>); the printing is left out.
\<close>



subsection \<open>The arrays in the store\<close>

text \<open>
  \<open>cards\<close> is a reference to an array that the caller keeps, and \<open>sort\<close> sorts in
  place.  To see what the functions do to the caller's array, arrays live in a store
  (the address of an array is its index), \<open>[...cards]\<close> allocates a new array with the
  same elements, and \<open>sort\<close> overwrites the array it is called on.
\<close>

type_synonym store = "card list list"

definition spreadCopy :: "store \<Rightarrow> nat \<Rightarrow> store \<times> nat" where
  "spreadCopy s a = (s @ [s ! a], length s)"

definition sortInPlace :: "store \<Rightarrow> nat \<Rightarrow> store" where
  "sortInPlace s a = s[a := sortCards (s ! a)]"

definition computeMetricsOn :: "store \<Rightarrow> nat \<Rightarrow> jsnum \<Rightarrow> store \<times> metrics" where
  "computeMetricsOn s cards priceUsd =
     (let costOfPack = priceUsd;
          scale = probabilityScale (s ! cards);
          expectedValue = expectedValueOf (s ! cards) scale;
          (s1, sorted) = spreadCopy s cards;
          s2 = sortInPlace s1 sorted;
          medianValue = medianLoop (s2 ! sorted) scale (Num 0);
          oddsOverCost = jmul (oddsSum (s2 ! cards) costOfPack scale) (Num 100);
          profit = jsub expectedValue costOfPack;
          evPercent = jmul (jdiv expectedValue costOfPack) (Num 100);
          profitPercent = jmul (jdiv profit costOfPack) (Num 100);
          medianPercent = jmul (jdiv (jsub medianValue costOfPack) costOfPack) (Num 100)
      in (s2, \<lparr> expectedValue = expectedValue, medianValue = medianValue,
           oddsOverCost = oddsOverCost, costOfPack = costOfPack, profit = profit,
           evPercent = evPercent, profitPercent = profitPercent,
           medianPercent = medianPercent, probScale = scale \<rparr>))"

definition buildProfitCurveOn ::
  "store \<Rightarrow> nat \<Rightarrow> jsnum \<Rightarrow> jsnum \<Rightarrow> store \<times> curvePoint list" where
  "buildProfitCurveOn s cards priceUsd scale =
     (let (s1, sorted) = spreadCopy s cards;
          s2 = sortInPlace s1 sorted;
          tailProb = foldl (\<lambda>sum card. jadd sum (jmul (probability card) scale)) (Num 0)
                       (s2 ! sorted)
      in (s2, curveLoop (s2 ! sorted) priceUsd scale tailProb))"

section \<open>The specification's notions\<close>

text \<open>The sum of a list of numbers, \<open>\<Sigma>\<close> in the specification.\<close>

fun jsum :: "jsnum list \<Rightarrow> jsnum" where
  "jsum [] = Num 0"
| "jsum (a # as) = jadd a (jsum as)"

text \<open>\<open>rawSum = \<Sigma> probability\<close>.\<close>

definition specRawSum :: "card list \<Rightarrow> jsnum" where
  "specRawSum cards = jsum (map probability cards)"

text \<open>A card's scaled probability.\<close>

definition scaledProb :: "jsnum \<Rightarrow> card \<Rightarrow> jsnum" where
  "scaledProb scale c = jmul (probability c) scale"




text \<open>The profit percentage of a value at a price.\<close>

definition profitPctOf :: "jsnum \<Rightarrow> jsnum \<Rightarrow> jsnum" where
  "profitPctOf v priceUsd = jmul (jdiv (jsub v priceUsd) priceUsd) (Num 100)"



text \<open>A card with a finite value and a finite probability, for the examples.\<close>

definition mkCard :: "real \<Rightarrow> real \<Rightarrow> card" where
  "mkCard v p = \<lparr> title = [], fmv = Num v, probability = Num p \<rparr>"

section \<open>Binary64 arithmetic\<close>

text \<open>
  JavaScript rounds the result of every arithmetic operation to the nearest binary64
  number, ties to the even significand, with gradual underflow, and with overflow to
  \<open>Infinity\<close>.  \<open>rhe\<close> rounds a real to the nearest integer, ties to even.  \<open>binade a\<close>
  is the exponent \<open>e\<close> with \<open>2^e \<le> a < 2^(e+1)\<close>, kept between \<open>-1022\<close> (below it the
  numbers are subnormal and share the spacing \<open>2^-1074\<close>) and \<open>1024\<close> (from where the
  result overflows); it is found by halving or doubling.  \<open>roundMag\<close> rounds a magnitude
  to 53 significant bits, and \<open>round64\<close> adds the sign and the overflow.
\<close>

definition rhe :: "real \<Rightarrow> int" where
  "rhe q = (let n = \<lfloor>q\<rfloor>; f = q - of_int n
            in if f < 1 / 2 then n else if 1 / 2 < f then n + 1
               else if even n then n else n + 1)"

fun expUp :: "nat \<Rightarrow> real \<Rightarrow> int" where
  "expUp 0 a = 0"
| "expUp (Suc n) a = (if a < 2 then 0 else 1 + expUp n (a / 2))"

fun expDown :: "nat \<Rightarrow> real \<Rightarrow> int" where
  "expDown 0 a = 0"
| "expDown (Suc n) a = (if 1 \<le> a then 0 else expDown n (2 * a) - 1)"

definition binade :: "real \<Rightarrow> int" where
  "binade a = (if 1 \<le> a then expUp 1024 a else expDown 1022 a)"

definition roundMag :: "real \<Rightarrow> real" where
  "roundMag a = (let e = binade a - 52 in of_int (rhe (a / 2 powi e)) * 2 powi e)"

definition round64 :: "real \<Rightarrow> jsnum" where
  "round64 r =
     (if r = 0 then Num 0
      else let v = roundMag \<bar>r\<bar>
           in if 2 ^ 1024 \<le> v then (if 0 < r then PosInf else NegInf)
              else Num (if 0 < r then v else - v))"

text \<open>
  The four operations: special values as before, a finite result rounded.  A decimal
  literal of the source, such as \<open>1e-6\<close> or \<open>0.01\<close>, is the rounded value of its decimal.
\<close>

definition fadd :: "jsnum \<Rightarrow> jsnum \<Rightarrow> jsnum" where
  "fadd a b = (case (a, b) of (Num u, Num v) \<Rightarrow> round64 (u + v) | _ \<Rightarrow> jadd a b)"

definition fsub :: "jsnum \<Rightarrow> jsnum \<Rightarrow> jsnum" where
  "fsub a b = (case (a, b) of (Num u, Num v) \<Rightarrow> round64 (u - v) | _ \<Rightarrow> jsub a b)"

definition fmul :: "jsnum \<Rightarrow> jsnum \<Rightarrow> jsnum" where
  "fmul a b = (case (a, b) of (Num u, Num v) \<Rightarrow> round64 (u * v) | _ \<Rightarrow> jmul a b)"

definition fdiv :: "jsnum \<Rightarrow> jsnum \<Rightarrow> jsnum" where
  "fdiv a b = (case (a, b) of
                 (Num u, Num v) \<Rightarrow> if v = 0 then jdiv a b else round64 (u / v)
               | _ \<Rightarrow> jdiv a b)"

text \<open>The values that binary64 arithmetic produces.\<close>

definition isDouble :: "jsnum \<Rightarrow> bool" where
  "isDouble a = (case a of Num v \<Rightarrow> round64 v = Num v | _ \<Rightarrow> True)"

definition finiteNonneg :: "jsnum \<Rightarrow> bool" where
  "finiteNonneg a = (isFinite a \<and> jge a (Num 0))"

section \<open>The engine in binary64 arithmetic\<close>

text \<open>
  The same functions of the source, \<open>probabilityScale\<close>, \<open>computeMetrics\<close> and
  \<open>buildProfitCurve\<close>, with every operation rounded.
\<close>

definition rawSum64 :: "card list \<Rightarrow> jsnum" where
  "rawSum64 cards = foldl (\<lambda>sum card. fadd sum (probability card)) (Num 0) cards"

definition probabilityScale64 :: "card list \<Rightarrow> jsnum" where
  "probabilityScale64 cards =
     (if jlt (jabs (fsub (rawSum64 cards) (Num 1))) (round64 (1 / 1000000)) then Num 1
      else if jlt (jabs (fsub (rawSum64 cards) (Num 100))) (round64 (1 / 100))
           then round64 (1 / 100)
      else fdiv (Num 1) (rawSum64 cards))"

definition compareFmv64 :: "card \<Rightarrow> card \<Rightarrow> jsnum" where
  "compareFmv64 a b = fsub (fmv a) (fmv b)"

fun insertCard64 :: "card \<Rightarrow> card list \<Rightarrow> card list" where
  "insertCard64 c [] = [c]"
| "insertCard64 c (d # ds) =
     (if jgt (compareFmv64 c d) (Num 0) then d # insertCard64 c ds else c # d # ds)"

definition sortCards64 :: "card list \<Rightarrow> card list" where
  "sortCards64 cards = foldr insertCard64 cards []"

definition expectedValueOf64 :: "card list \<Rightarrow> jsnum \<Rightarrow> jsnum" where
  "expectedValueOf64 cards scale =
     foldl (\<lambda>sum card. fadd sum (fmul (fmul (probability card) scale) (fmv card))) (Num 0) cards"

fun medianLoop64 :: "card list \<Rightarrow> jsnum \<Rightarrow> jsnum \<Rightarrow> jsnum" where
  "medianLoop64 [] scale cumulative = Num 0"
| "medianLoop64 (c # rest) scale cumulative =
     (let cumulative' = fadd cumulative (fmul (probability c) scale)
      in if jge cumulative' (Num (1 / 2)) then fmv c
         else medianLoop64 rest scale cumulative')"

definition oddsSum64 :: "card list \<Rightarrow> jsnum \<Rightarrow> jsnum \<Rightarrow> jsnum" where
  "oddsSum64 cards cost scale =
     foldl (\<lambda>sum card. if jge (fmv card) cost
                        then fadd sum (fmul (probability card) scale) else sum) (Num 0) cards"

definition computeMetrics64 :: "card list \<Rightarrow> jsnum \<Rightarrow> metrics" where
  "computeMetrics64 cards priceUsd =
     (let costOfPack = priceUsd;
          scale = probabilityScale64 cards;
          expectedValue = expectedValueOf64 cards scale;
          sorted = sortCards64 cards;
          medianValue = medianLoop64 sorted scale (Num 0);
          oddsOverCost = fmul (oddsSum64 cards costOfPack scale) (Num 100);
          profit = fsub expectedValue costOfPack;
          evPercent = fmul (fdiv expectedValue costOfPack) (Num 100);
          profitPercent = fmul (fdiv profit costOfPack) (Num 100);
          medianPercent = fmul (fdiv (fsub medianValue costOfPack) costOfPack) (Num 100)
      in \<lparr> expectedValue = expectedValue, medianValue = medianValue,
           oddsOverCost = oddsOverCost, costOfPack = costOfPack, profit = profit,
           evPercent = evPercent, profitPercent = profitPercent,
           medianPercent = medianPercent, probScale = scale \<rparr>)"



text \<open>
  A card's scaled probability as the code computes it; the sum of the scaled
  probabilities as a \<open>reduce\<close> of the code accumulates it, from \<open>0\<close>, in the order of the
  list; and the weighted sum that results when every card is worth \<open>v\<close>.
\<close>

definition scaledProb64 :: "jsnum \<Rightarrow> card \<Rightarrow> jsnum" where
  "scaledProb64 scale c = fmul (probability c) scale"

definition totalScaled64 :: "card list \<Rightarrow> jsnum \<Rightarrow> jsnum" where
  "totalScaled64 cards scale = foldl (\<lambda>sum c. fadd sum (scaledProb64 scale c)) (Num 0) cards"


section \<open>Arithmetic of the numbers\<close>

lemma jadd_commute: "jadd a b = jadd b a"
  by (cases a; cases b) simp_all

lemma jadd_assoc: "jadd (jadd a b) c = jadd a (jadd b c)"
  by (cases a; cases b; cases c) simp_all

lemma jadd_left_commute: "jadd a (jadd b c) = jadd b (jadd a c)"
  by (cases a; cases b; cases c) simp_all

lemma jadd_zero [simp]: "jadd (Num 0) a = a" "jadd a (Num 0) = a"
  by (cases a; simp)+

lemma jadd_Num_iff: "jadd a b = Num s \<longleftrightarrow> (\<exists>r t. a = Num r \<and> b = Num t \<and> s = r + t)"
  by (cases a; cases b) auto

lemma isFinite_iff: "isFinite a \<longleftrightarrow> (\<exists>r. a = Num r)"
  by (cases a) simp_all

lemma jadd_not_finite: "\<not> isFinite a \<Longrightarrow> \<not> isFinite (jadd b a)"
  by (cases a; cases b) simp_all

section \<open>Sums\<close>

text \<open>A \<open>reduce\<close> that adds one term for each card is the sum of the terms.\<close>

lemma foldl_jadd: "foldl (\<lambda>s c. jadd s (f c)) a cs = jadd a (jsum (map f cs))"
  by (induction cs arbitrary: a) (simp_all add: jadd_assoc)

lemma rawSum_spec: "rawSum cards = specRawSum cards"
  by (simp add: rawSum_def specRawSum_def foldl_jadd)


lemma jsum_Num_finite: "jsum as = Num s \<Longrightarrow> \<forall>a\<in>set as. isFinite a"
  by (induction as arbitrary: s) (auto simp: jadd_Num_iff)


section \<open>The normalizer\<close>



section \<open>The empty distribution\<close>

text \<open>
  Claim C10.  For the empty list of cards and any price, \<open>computeMetrics\<close> returns
  \<open>expectedValue = 0\<close>, \<open>medianValue = 0\<close> and \<open>oddsOverCost = 0\<close>, although the scale
  computed for the empty list is \<open>1 / 0 = Infinity\<close>.
\<close>

theorem computeMetrics_empty:
  "expectedValue (computeMetrics [] priceUsd) = Num 0
   \<and> medianValue (computeMetrics [] priceUsd) = Num 0
   \<and> oddsOverCost (computeMetrics [] priceUsd) = Num 0
   \<and> probabilityScale [] = PosInf
   \<and> probScale (computeMetrics [] priceUsd) = PosInf
   \<and> \<not> isFinite (probScale (computeMetrics [] priceUsd))"
  by (simp add: computeMetrics_def Let_def expectedValueOf_def sortCards_def oddsSum_def
      probabilityScale_def rawSum_def jsub_def infTimes_def)

section \<open>Non-finite values\<close>

lemma jmul_PosInf_not_finite: "\<not> isFinite (jmul a PosInf)"
  by (cases a) (simp_all add: infTimes_def)

lemma jmul_not_finite: "\<not> isFinite a \<Longrightarrow> \<not> isFinite (jmul a b)"
  by (cases a; cases b) (simp_all add: infTimes_def)

lemma jsum_not_finite: "as \<noteq> [] \<Longrightarrow> \<forall>a\<in>set as. \<not> isFinite a \<Longrightarrow> \<not> isFinite (jsum as)"
  by (cases as) (auto simp: isFinite_iff jadd_Num_iff)

lemma div_zero_percent_not_finite: "\<not> isFinite (jmul (jdiv a (Num 0)) (Num 100))"
  by (cases a) (simp_all add: infTimes_def)

lemma expectedValueOf_sum:
  "expectedValueOf cards scale = jsum (map (\<lambda>c. jmul (scaledProb scale c) (fmv c)) cards)"
  by (simp add: expectedValueOf_def scaledProb_def foldl_jadd)

lemma expectedValue_computeMetrics:
  "expectedValue (computeMetrics cards priceUsd) = expectedValueOf cards (probabilityScale cards)"
  by (simp add: computeMetrics_def Let_def)

section \<open>A distribution whose probabilities sum to zero\<close>

text \<open>
  Claim C2 says that the normalizer reports a \<open>DegenerateDistribution\<close> failure when the
  raw probabilities sum to \<open>0\<close>.  \<open>probabilityScale\<close> has no failure to report: for one
  card of probability \<open>0\<close> it returns \<open>Infinity\<close>, and \<open>computeMetrics\<close> goes on to
  return \<open>NaN\<close> for the expected value and the odds.
\<close>

theorem probabilityScale_degenerate_counterexample:
  "probabilityScale [mkCard 10 0] = PosInf
   \<and> expectedValue (computeMetrics [mkCard 10 0] (Num 5)) = NaN
   \<and> oddsOverCost (computeMetrics [mkCard 10 0] (Num 5)) = NaN"
  by (simp add: computeMetrics_def Let_def expectedValueOf_def oddsSum_def
      probabilityScale_def rawSum_def jsub_def infTimes_def mkCard_def)

text \<open>
  Claim C2, amended.  For any distribution whose raw probabilities sum to \<open>0\<close>,
  \<open>probabilityScale\<close> returns the number \<open>Infinity\<close>, \<open>computeMetrics\<close> reports it as
  \<open>probScale\<close>, and when the distribution is not empty the expected value computed with
  it is not finite.
\<close>

theorem probabilityScale_degenerate:
  assumes "specRawSum cards = Num 0"
  shows "probabilityScale cards = PosInf
       \<and> probScale (computeMetrics cards priceUsd) = PosInf
       \<and> (cards \<noteq> [] \<longrightarrow> \<not> isFinite (expectedValue (computeMetrics cards priceUsd)))"
proof -
  have scale: "probabilityScale cards = PosInf"
    using assms by (simp add: probabilityScale_def rawSum_spec jsub_def infTimes_def)
  have "\<not> isFinite (expectedValueOf cards PosInf)" if "cards \<noteq> []"
    unfolding expectedValueOf_sum
    by (rule jsum_not_finite)
      (use that in \<open>simp_all add: scaledProb_def jmul_not_finite jmul_PosInf_not_finite\<close>)
  then show ?thesis
    using scale by (simp add: expectedValue_computeMetrics) (simp add: computeMetrics_def Let_def)
qed

theorem probabilityScale_degenerate_witness:
  "specRawSum [mkCard 10 0, mkCard 20 0] = Num 0
   \<and> probabilityScale [mkCard 10 0, mkCard 20 0] = PosInf
   \<and> \<not> isFinite (expectedValue (computeMetrics [mkCard 10 0, mkCard 20 0] (Num 5)))"
  using probabilityScale_degenerate [of "[mkCard 10 0, mkCard 20 0]" "Num 5"]
  by (simp add: specRawSum_def mkCard_def)

section \<open>A price that is not positive\<close>

text \<open>
  Claim C8 says that a price \<open>priceUsd \<le> 0\<close> is rejected before any metric is computed.
  \<open>computeMetrics\<close> does not look at the sign of the price: at the price \<open>0\<close> it
  computes every metric and divides by the price, which gives \<open>Infinity\<close>.
\<close>

theorem computeMetrics_price_counterexample:
  "computeMetrics [mkCard 10 1] (Num 0) =
     \<lparr> expectedValue = Num 10, medianValue = Num 10, oddsOverCost = Num 100,
       costOfPack = Num 0, profit = Num 10, evPercent = PosInf, profitPercent = PosInf,
       medianPercent = PosInf, probScale = Num 1 \<rparr>"
  by (simp add: computeMetrics_def Let_def expectedValueOf_def oddsSum_def sortCards_def
      probabilityScale_def rawSum_def jsub_def infTimes_def mkCard_def)

text \<open>
  Claim C8, amended.  For every price \<open>priceUsd \<le> 0\<close>, \<open>computeMetrics\<close> returns metrics
  as for any other price: \<open>costOfPack\<close> is the price, the expected value and the median
  do not depend on it, and the three percentages are the quotients by the price; at the
  price \<open>0\<close> the three percentages are not finite.
\<close>

theorem computeMetrics_no_price_check:
  fixes cards :: "card list" and priceUsd :: jsnum
  defines "m \<equiv> computeMetrics cards priceUsd"
  assumes "jge (Num 0) priceUsd"
  shows "metrics.costOfPack m = priceUsd
       \<and> expectedValue m = expectedValueOf cards (probabilityScale cards)
       \<and> medianValue m = medianLoop (sortCards cards) (probabilityScale cards) (Num 0)
       \<and> metrics.evPercent m = jmul (jdiv (expectedValue m) priceUsd) (Num 100)
       \<and> metrics.profitPercent m
           = jmul (jdiv (jsub (expectedValue m) priceUsd) priceUsd) (Num 100)
       \<and> medianPercent m = jmul (jdiv (jsub (medianValue m) priceUsd) priceUsd) (Num 100)
       \<and> (priceUsd = Num 0 \<longrightarrow> \<not> isFinite (metrics.evPercent m)
             \<and> \<not> isFinite (metrics.profitPercent m) \<and> \<not> isFinite (medianPercent m))"
  unfolding m_def by (simp add: computeMetrics_def Let_def div_zero_percent_not_finite)

theorem computeMetrics_no_price_check_witness:
  "jge (Num 0) (Num (- 5))
   \<and> metrics.costOfPack (computeMetrics [mkCard 10 1] (Num (- 5))) = Num (- 5)
   \<and> metrics.evPercent (computeMetrics [mkCard 10 1] (Num (- 5))) = Num (- 200)
   \<and> \<not> isFinite (metrics.evPercent (computeMetrics [mkCard 10 1] (Num 0)))"
  using computeMetrics_no_price_check [of "Num (- 5)" "[mkCard 10 1]"]
    computeMetrics_no_price_check [of "Num 0" "[mkCard 10 1]"]
  by (simp add: expectedValueOf_def probabilityScale_def rawSum_def jsub_def mkCard_def
      infTimes_def)

section \<open>The sort\<close>

lemma mset_insertCard: "mset (insertCard c ds) = add_mset c (mset ds)"
  by (induction ds) simp_all

lemma mset_sortCards: "mset (sortCards cards) = mset cards"
  by (induction cards) (simp_all add: sortCards_def mset_insertCard)


lemma length_sortCards: "length (sortCards cards) = length cards"
  using mset_sortCards [of cards] by (metis size_mset)

lemma sortCards_Nil_iff: "sortCards cards = [] \<longleftrightarrow> cards = []"
  using length_sortCards [of cards] by auto




lemma jsum_insertCard: "jsum (map f (insertCard c ds)) = jadd (f c) (jsum (map f ds))"
  by (induction ds) (simp_all add: jadd_left_commute)

lemma jsum_sortCards: "jsum (map f (sortCards cards)) = jsum (map f cards)"
  by (induction cards) (simp_all add: sortCards_def jsum_insertCard)

section \<open>The points of the curve\<close>

lemma length_curveLoop: "length (curveLoop cs priceUsd scale t) = length cs"
  by (induction cs arbitrary: t) (simp_all add: Let_def)

lemma jmax_ge: "jge a b \<Longrightarrow> jmax a b = a"
  by (cases a; cases b) simp_all

lemma curveLoop_point:
  "i < length cs \<Longrightarrow>
     x (curveLoop cs priceUsd scale t ! i) = jmax (fmv (cs ! i)) (Num (1 / 100))
     \<and> profitPct (curveLoop cs priceUsd scale t ! i)
         = profitPctOf (jmax (fmv (cs ! i)) (Num (1 / 100))) priceUsd"
proof (induction cs arbitrary: t i)
  case Nil
  then show ?case by simp
next
  case (Cons c cs)
  show ?case
  proof (cases i)
    case 0
    then show ?thesis by (simp add: Let_def profitPctOf_def)
  next
    case (Suc j)
    with Cons.prems have "j < length cs" by simp
    from Cons.IH [OF this] show ?thesis using Suc by (simp add: Let_def)
  qed
qed

text \<open>
  Claim C4 says that the point of a card has \<open>profitPct = (fmv - priceUsd) / priceUsd * 100\<close>
  from the card's own \<open>fmv\<close>.  \<open>buildProfitCurve\<close> computes it from \<open>value\<close>, the
  \<open>fmv\<close> raised to at least \<open>0.01\<close>: a card worth \<open>0\<close> at the price \<open>1\<close> gets \<open>-99\<close>,
  not \<open>-100\<close>.
\<close>

theorem buildProfitCurve_profitPct_counterexample:
  "buildProfitCurve [mkCard 0 1] (Num 1) (Num 1)
     = [\<lparr> x = Num (1 / 100), y = Num 100, profitPct = Num (- 99) \<rparr>]
   \<and> profitPctOf (fmv (mkCard 0 1)) (Num 1) = Num (- 100)
   \<and> jgt (Num 1) (Num 0)"
  by (simp add: buildProfitCurve_def sortCards_def Let_def mkCard_def jsub_def profitPctOf_def
      jgt_def)

text \<open>
  Claim C4, amended.  The curve has one point for each card, in the sorted order.  The
  point of a card has \<open>x = max(fmv, 0.01)\<close> and \<open>profitPct = (x - priceUsd) / priceUsd * 100\<close>,
  computed from that \<open>x\<close>; for a card with \<open>fmv \<ge> 0.01\<close>, \<open>x\<close> is the \<open>fmv\<close> and
  \<open>profitPct\<close> is \<open>(fmv - priceUsd) / priceUsd * 100\<close>.
\<close>

theorem buildProfitCurve_points:
  fixes cards :: "card list" and priceUsd scale :: jsnum
  defines "curve \<equiv> buildProfitCurve cards priceUsd scale"
  defines "cs \<equiv> sortCards cards"
  shows "length curve = length cards \<and> mset cs = mset cards
       \<and> (\<forall>i<length cards.
            x (curve ! i) = jmax (fmv (cs ! i)) (Num (1 / 100))
            \<and> profitPct (curve ! i) = profitPctOf (x (curve ! i)) priceUsd
            \<and> (jge (fmv (cs ! i)) (Num (1 / 100)) \<longrightarrow>
                 x (curve ! i) = fmv (cs ! i)
                 \<and> profitPct (curve ! i) = profitPctOf (fmv (cs ! i)) priceUsd))"
proof -
  have "length curve = length cards"
    by (simp add: curve_def buildProfitCurve_def Let_def length_curveLoop length_sortCards)
  moreover have "mset cs = mset cards"
    by (simp add: cs_def mset_sortCards)
  moreover have "x (curve ! i) = jmax (fmv (cs ! i)) (Num (1 / 100))
            \<and> profitPct (curve ! i) = profitPctOf (x (curve ! i)) priceUsd
            \<and> (jge (fmv (cs ! i)) (Num (1 / 100)) \<longrightarrow>
                 x (curve ! i) = fmv (cs ! i)
                 \<and> profitPct (curve ! i) = profitPctOf (fmv (cs ! i)) priceUsd)"
    if "i < length cards" for i
  proof -
    from that have "i < length (sortCards cards)" by (simp add: length_sortCards)
    from curveLoop_point [OF this] show ?thesis
      by (simp add: curve_def cs_def buildProfitCurve_def Let_def jmax_ge)
  qed
  ultimately show ?thesis by blast
qed

theorem buildProfitCurve_points_witness:
  "map x (buildProfitCurve [mkCard 10 1, mkCard 0 1] (Num 5) (Num (1 / 2))) = [Num (1 / 100), Num 10]
   \<and> map profitPct (buildProfitCurve [mkCard 10 1, mkCard 0 1] (Num 5) (Num (1 / 2)))
       = [Num (- 998 / 10), Num 100]"
proof -
  have s: "sortCards [mkCard 10 1, mkCard 0 1] = [mkCard 0 1, mkCard 10 1]"
    by (simp add: sortCards_def mkCard_def compareFmv_def jsub_def jgt_def)
  have l: "length (buildProfitCurve [mkCard 10 1, mkCard 0 1] (Num 5) (Num (1 / 2))) = 2"
    and p: "\<forall>i<2. x (buildProfitCurve [mkCard 10 1, mkCard 0 1] (Num 5) (Num (1 / 2)) ! i)
              = jmax (fmv ([mkCard 0 1, mkCard 10 1] ! i)) (Num (1 / 100))
            \<and> profitPct (buildProfitCurve [mkCard 10 1, mkCard 0 1] (Num 5) (Num (1 / 2)) ! i)
              = profitPctOf (x (buildProfitCurve [mkCard 10 1, mkCard 0 1] (Num 5) (Num (1 / 2)) ! i)) (Num 5)"
    using buildProfitCurve_points [of "[mkCard 10 1, mkCard 0 1]" "Num 5" "Num (1 / 2)"]
    by (simp_all add: s)
  from p have "x (buildProfitCurve [mkCard 10 1, mkCard 0 1] (Num 5) (Num (1 / 2)) ! 0) = Num (1 / 100)"
    "x (buildProfitCurve [mkCard 10 1, mkCard 0 1] (Num 5) (Num (1 / 2)) ! 1) = Num 10"
    "profitPct (buildProfitCurve [mkCard 10 1, mkCard 0 1] (Num 5) (Num (1 / 2)) ! 0) = Num (- 998 / 10)"
    "profitPct (buildProfitCurve [mkCard 10 1, mkCard 0 1] (Num 5) (Num (1 / 2)) ! 1) = Num 100"
    by (simp_all add: mkCard_def profitPctOf_def jsub_def)
  with l show ?thesis
    by (cases "buildProfitCurve [mkCard 10 1, mkCard 0 1] (Num 5) (Num (1 / 2))" rule: list.exhaust)
       (auto simp: length_Suc_conv numeral_2_eq_2)
qed

section \<open>The caller's array\<close>

text \<open>\<open>sort\<close> called on the caller's array itself would reorder it.\<close>

lemma sortInPlace_overwrites:
  "sortInPlace [[mkCard 2 1, mkCard 1 1]] 0 = [[mkCard 1 1, mkCard 2 1]]"
  by (simp add: sortInPlace_def sortCards_def compareFmv_def jsub_def jgt_def mkCard_def)

text \<open>
  Claim C9.  \<open>computeMetrics\<close> and \<open>buildProfitCurve\<close> leave the caller's \<open>cards\<close>
  array as it was: the only change to the store is one new array, the sorted copy, and
  the results are those of the functions on the list of cards.
\<close>

theorem cards_unchanged:
  assumes "cards < length s"
  shows "fst (computeMetricsOn s cards priceUsd) = s @ [sortCards (s ! cards)]
       \<and> fst (computeMetricsOn s cards priceUsd) ! cards = s ! cards
       \<and> snd (computeMetricsOn s cards priceUsd) = computeMetrics (s ! cards) priceUsd
       \<and> fst (buildProfitCurveOn s cards priceUsd scale) = s @ [sortCards (s ! cards)]
       \<and> fst (buildProfitCurveOn s cards priceUsd scale) ! cards = s ! cards
       \<and> snd (buildProfitCurveOn s cards priceUsd scale)
           = buildProfitCurve (s ! cards) priceUsd scale"
proof -
  have 1: "sortInPlace (s @ [s ! cards]) (length s) = s @ [sortCards (s ! cards)]"
    by (simp add: sortInPlace_def)
  have 2: "(s @ [sortCards (s ! cards)]) ! cards = s ! cards"
    using assms by (simp add: nth_append)
  have 3: "(s @ [sortCards (s ! cards)]) ! length s = sortCards (s ! cards)"
    by simp
  show ?thesis
    by (simp add: computeMetricsOn_def buildProfitCurveOn_def computeMetrics_def
        buildProfitCurve_def spreadCopy_def Let_def 1 2 3)
qed

theorem cards_unchanged_witness:
  "fst (computeMetricsOn [[mkCard 2 1, mkCard 1 1]] 0 (Num 5)) ! 0 = [mkCard 2 1, mkCard 1 1]
   \<and> fst (buildProfitCurveOn [[mkCard 2 1, mkCard 1 1]] 0 (Num 5) (Num (1 / 2)))
       = [[mkCard 2 1, mkCard 1 1], [mkCard 1 1, mkCard 2 1]]"
  using cards_unchanged [of 0 "[[mkCard 2 1, mkCard 1 1]]" "Num 5" "Num (1 / 2)"]
  by (simp add: sortCards_def compareFmv_def jsub_def jgt_def mkCard_def)

section \<open>The weighted median\<close>









section \<open>The least and the greatest \<open>fmv\<close>\<close>



section \<open>Rounding to the nearest integer\<close>

lemma rhe_near: "\<bar>of_int (rhe q) - q\<bar> \<le> 1 / 2"
  unfolding rhe_def Let_def by (auto; linarith)

lemma rhe_of_int [simp]: "rhe (of_int n) = n"
  by (simp add: rhe_def)

lemma rhe_mono: assumes "q \<le> q'" shows "rhe q \<le> rhe q'"
proof (rule ccontr)
  assume "\<not> rhe q \<le> rhe q'"
  then have "rhe q' + 1 \<le> rhe q" by simp
  then have "(of_int (rhe q') :: real) + 1 \<le> of_int (rhe q)" by linarith
  moreover have "of_int (rhe q) - q \<le> 1 / 2" "q' - of_int (rhe q') \<le> 1 / 2"
    using rhe_near [of q] rhe_near [of q'] by linarith+
  ultimately have "q' \<le> q" by linarith
  with assms have "q = q'" by simp
  with \<open>\<not> rhe q \<le> rhe q'\<close> show False by simp
qed

lemma rhe_ge: "of_int n \<le> q \<Longrightarrow> n \<le> rhe q"
  using rhe_mono [of "of_int n" q] by simp

lemma rhe_le: "q \<le> of_int n \<Longrightarrow> rhe q \<le> n"
  using rhe_mono [of q "of_int n"] by simp

section \<open>The exponent of a magnitude\<close>

lemma expUp_range: "0 \<le> expUp n a \<and> expUp n a \<le> int n"
  by (induction n a rule: expUp.induct) auto

lemma expUp_lower: "1 \<le> a \<Longrightarrow> 2 powi (expUp n a) \<le> a"
proof (induction n a rule: expUp.induct)
  case (1 a)
  then show ?case by simp
next
  case (2 n a)
  show ?case
  proof (cases "a < 2")
    case True
    with 2 show ?thesis by simp
  next
    case False
    then have "2 powi (expUp n (a / 2)) \<le> a / 2" using 2 by simp
    moreover have "0 \<le> expUp n (a / 2)" using expUp_range by blast
    ultimately show ?thesis using False
      by (simp add: power_int_add)
  qed
qed

lemma expUp_upper: "expUp n a < int n \<Longrightarrow> a < 2 powi (expUp n a + 1)"
proof (induction n a rule: expUp.induct)
  case (1 a)
  then show ?case by simp
next
  case (2 n a)
  show ?case
  proof (cases "a < 2")
    case True
    then show ?thesis by simp
  next
    case False
    with 2 have "a / 2 < 2 powi (expUp n (a / 2) + 1)" by simp
    moreover have "0 \<le> expUp n (a / 2)" using expUp_range by blast
    ultimately show ?thesis using False
      by (simp add: power_int_add)
  qed
qed

lemma expUp_mono: "a \<le> b \<Longrightarrow> expUp n a \<le> expUp n b"
proof (induction n arbitrary: a b)
  case 0
  show ?case by simp
next
  case (Suc n)
  from Suc.prems have "expUp n (a / 2) \<le> expUp n (b / 2)" by (intro Suc.IH) simp
  moreover have "0 \<le> expUp n (b / 2)" using expUp_range by blast
  ultimately show ?case using Suc.prems by auto
qed

lemma expDown_range: "- int n \<le> expDown n a \<and> expDown n a \<le> 0"
  by (induction n a rule: expDown.induct) auto

lemma expDown_neg: "a < 1 \<Longrightarrow> 0 < n \<Longrightarrow> expDown n a < 0"
  using expDown_range [of "n - 1" "2 * a"] by (cases n) auto

lemma expDown_upper: "a < 1 \<Longrightarrow> 0 < n \<Longrightarrow> a < 2 powi (expDown n a + 1)"
proof (induction n a rule: expDown.induct)
  case (1 a)
  then show ?case by simp
next
  case (2 n a)
  show ?case
  proof (cases "1 \<le> 2 * a")
    case True
    with 2 show ?thesis by (cases n) auto
  next
    case False
    show ?thesis
    proof (cases n)
      case 0
      with 2 show ?thesis by simp
    next
      case (Suc m)
      with 2 False have "2 * a < 2 powi (expDown n (2 * a) + 1)" by simp
      then show ?thesis using 2
        by (simp add: power_int_add power_int_diff)
    qed
  qed
qed

lemma expDown_lower: "0 < a \<Longrightarrow> - int n < expDown n a \<Longrightarrow> 2 powi (expDown n a) \<le> a"
proof (induction n a rule: expDown.induct)
  case (1 a)
  then show ?case by simp
next
  case (2 n a)
  show ?case
  proof (cases "1 \<le> a")
    case True
    then show ?thesis by simp
  next
    case False
    with 2 have "2 powi (expDown n (2 * a)) \<le> 2 * a" by simp
    then show ?thesis using False
      by (simp add: power_int_diff)
  qed
qed

lemma expDown_mono: "a \<le> b \<Longrightarrow> expDown n a \<le> expDown n b"
proof (induction n arbitrary: a b)
  case 0
  show ?case by simp
next
  case (Suc n)
  from Suc.prems have "expDown n (2 * a) \<le> expDown n (2 * b)" by (intro Suc.IH) simp
  moreover have "expDown n (2 * a) \<le> 0" using expDown_range by blast
  ultimately show ?case using Suc.prems by auto
qed

lemma binade_range: "- 1022 \<le> binade a \<and> binade a \<le> 1024"
  using expUp_range [of 1024 a] expDown_range [of 1022 a] by (auto simp: binade_def)

lemma binade_upper: "binade a < 1024 \<Longrightarrow> a < 2 powi (binade a + 1)"
  using expUp_upper [of 1024 a] expDown_upper [of a 1022] by (auto simp: binade_def)

lemma binade_lower: "0 < a \<Longrightarrow> - 1022 < binade a \<Longrightarrow> 2 powi (binade a) \<le> a"
  using expUp_lower [of a 1024] expDown_lower [of a 1022] by (auto simp: binade_def)

lemma binade_mono: "a \<le> b \<Longrightarrow> binade a \<le> binade b"
  using expUp_mono [of a b 1024] expDown_mono [of a b 1022] expDown_range [of 1022 a]
    expUp_range [of 1024 b]
  by (auto simp: binade_def) 

lemma binade_eq:
  assumes "0 < v" "- 1022 \<le> j" "j \<le> 1024"
    and lo: "- 1022 < j \<Longrightarrow> 2 powi j \<le> v"
    and hi: "j < 1024 \<Longrightarrow> v < 2 powi (j + 1)"
  shows "binade v = j"
proof (rule ccontr)
  assume ne: "binade v \<noteq> j"
  show False
  proof (cases "binade v < j")
    case True
    then have "binade v < 1024" "- 1022 < j"
      using assms(3) binade_range [of v] by linarith+
    then have "v < 2 powi (binade v + 1)" "2 powi j \<le> v" using lo by (simp_all add: binade_upper)
    moreover have "(2::real) powi (binade v + 1) \<le> 2 powi j"
      using True by (intro power_int_increasing) simp_all
    ultimately show False by linarith
  next
    case False
    with ne have gt: "j < binade v" by simp
    then have "j < 1024" "- 1022 < binade v"
      using assms(2) binade_range [of v] by linarith+
    then have "v < 2 powi (j + 1)" "2 powi (binade v) \<le> v"
      using hi assms(1) by (simp_all add: binade_lower)
    moreover have "(2::real) powi (j + 1) \<le> 2 powi (binade v)"
      using gt by (intro power_int_increasing) simp_all
    ultimately show False by linarith
  qed
qed

section \<open>Rounding a magnitude\<close>

text \<open>Rounding is monotone, and a rounded magnitude rounds to itself.\<close>

lemma roundMag_zero [simp]: "roundMag 0 = 0"
  using rhe_of_int [of 0] by (simp add: roundMag_def Let_def)

lemma roundMag_nonneg: "0 \<le> a \<Longrightarrow> 0 \<le> roundMag a"
proof -
  assume "0 \<le> a"
  then have "(of_int 0 :: real) \<le> a / 2 powi (binade a - 52)" by simp
  then have "0 \<le> rhe (a / 2 powi (binade a - 52))" by (rule rhe_ge)
  then show ?thesis by (simp add: roundMag_def Let_def)
qed

lemma pow_shift: "(2::real) powi (e + int m) = 2 powi e * 2 ^ m"
  by (subst power_int_add) simp_all

lemma pow_split: "(2::real) powi k = 2 powi (k - 52) * 2 ^ 52"
  using pow_shift [of "k - 52" 52] by simp

lemma pow_split1: "(2::real) powi (k + 1) = 2 powi (k - 52) * 2 ^ 53"
  using pow_shift [of "k - 52" 53] by (simp add: add.commute)

lemma of_int_ge_real: "m \<le> n \<Longrightarrow> (of_int m :: real) \<le> of_int n"
  by simp

lemma roundMag_lower:
  assumes "0 < a" "- 1022 < binade a"
  shows "2 powi (binade a) \<le> roundMag a"
proof -
  let ?P = "(2::real) powi (binade a - 52)"
  have P: "0 < ?P" by simp
  have "2 powi (binade a) \<le> a" using assms by (rule binade_lower)
  then have "?P * 2 ^ 52 \<le> a" using pow_split [of "binade a"] by simp
  then have "2 ^ 52 \<le> a / ?P" using P by (simp add: pos_le_divide_eq mult.commute)
  then have "(of_int (2 ^ 52) :: real) \<le> a / ?P" by simp
  then have "2 ^ 52 \<le> rhe (a / ?P)" by (rule rhe_ge)
  then have "(of_int (2 ^ 52) :: real) \<le> of_int (rhe (a / ?P))" by (rule of_int_ge_real)
  then have "(2 ^ 52 :: real) \<le> of_int (rhe (a / ?P))" by simp
  then have "2 ^ 52 * ?P \<le> of_int (rhe (a / ?P)) * ?P" using P by simp
  then show ?thesis using pow_split [of "binade a"] by (simp add: roundMag_def Let_def mult.commute)
qed

lemma roundMag_upper:
  assumes "binade a < 1024"
  shows "roundMag a \<le> 2 powi (binade a + 1)"
proof -
  let ?P = "(2::real) powi (binade a - 52)"
  have P: "0 < ?P" by simp
  have split: "(2::real) powi (binade a + 1) = ?P * 2 ^ 53"
    by (rule pow_split1)
  have "a < 2 powi (binade a + 1)" using assms by (rule binade_upper)
  then have "a / ?P \<le> 2 ^ 53" using P split by (simp add: pos_divide_le_eq mult.commute)
  then have "a / ?P \<le> (of_int (2 ^ 53) :: real)" by simp
  then have "rhe (a / ?P) \<le> 2 ^ 53" by (rule rhe_le)
  then have "(of_int (rhe (a / ?P)) :: real) \<le> of_int (2 ^ 53)" by (rule of_int_ge_real)
  then have "of_int (rhe (a / ?P)) \<le> (2 ^ 53 :: real)" by simp
  then have "of_int (rhe (a / ?P)) * ?P \<le> 2 ^ 53 * ?P" using P by simp
  then show ?thesis using split by (simp add: roundMag_def Let_def mult.commute)
qed

lemma roundMag_mono:
  assumes "0 \<le> a" "a \<le> b"
  shows "roundMag a \<le> roundMag b"
proof (cases "binade a = binade b")
  case True
  let ?P = "(2::real) powi (binade b - 52)"
  have "a / ?P \<le> b / ?P" using assms by (simp add: divide_right_mono)
  then have "rhe (a / ?P) \<le> rhe (b / ?P)" by (rule rhe_mono)
  then have "(of_int (rhe (a / ?P)) :: real) \<le> of_int (rhe (b / ?P))" by (rule of_int_ge_real)
  then show ?thesis using True by (simp add: roundMag_def Let_def)
next
  case False
  with binade_mono [OF assms(2)] have lt: "binade a < binade b" by simp
  have "0 < b"
  proof (rule ccontr)
    assume "\<not> 0 < b"
    with assms have "a = b" by simp
    with False show False by simp
  qed
  have "binade a < 1024" "- 1022 < binade b"
    using lt binade_range [of a] binade_range [of b] by linarith+
  then have "roundMag a \<le> 2 powi (binade a + 1)" "2 powi (binade b) \<le> roundMag b"
    using \<open>0 < b\<close> by (simp_all add: roundMag_upper roundMag_lower)
  moreover have "(2::real) powi (binade a + 1) \<le> 2 powi (binade b)"
    using lt by (intro power_int_increasing) simp_all
  ultimately show ?thesis by linarith
qed

lemma roundMag_idem:
  assumes "0 \<le> a"
  shows "roundMag (roundMag a) = roundMag a"
proof (cases "roundMag a = 0")
  case True
  then show ?thesis by simp
next
  case False
  define k where "k = binade a"
  define P where "P = (2::real) powi (k - 52)"
  define n where "n = rhe (a / P)"
  define v where "v = roundMag a"
  have v: "v = of_int n * P" by (simp add: v_def n_def P_def k_def roundMag_def Let_def)
  have P: "0 < P" by (simp add: P_def)
  have "0 < v" using False roundMag_nonneg [OF assms] by (simp add: v_def)
  have "0 < a" using False assms by (cases "a = 0") auto
  have kr: "- 1022 \<le> k" "k \<le> 1024" using binade_range [of a] by (simp_all add: k_def)
  have low: "2 powi k \<le> v" if "- 1022 < k"
    using that \<open>0 < a\<close> roundMag_lower [of a] by (simp add: k_def v_def)
  have up: "v \<le> 2 powi (k + 1)" if "k < 1024"
    using that roundMag_upper [of a] by (simp add: k_def v_def)
  have split: "(2::real) powi (k + 1) = P * 2 ^ 53"
    unfolding P_def by (rule pow_split1)
  show ?thesis
  proof (cases "k < 1024 \<and> v = 2 powi (k + 1)")
    case True
    then have "binade v = k + 1"
      using \<open>0 < v\<close> kr by (intro binade_eq) (simp_all add: power_int_add)
    moreover have "v / 2 powi (k + 1 - 52) = of_int (2 ^ 52)"
      using True pow_split [of "k + 1"] by simp
    ultimately have "roundMag v = of_int (2 ^ 52) * 2 powi (k + 1 - 52)"
      by (simp only: roundMag_def Let_def rhe_of_int)
    also have "\<dots> = v" using True pow_split [of "k + 1"] by simp
    finally show ?thesis by (simp add: v_def)
  next
    case False
    have "binade v = k"
    proof (rule binade_eq [OF \<open>0 < v\<close> kr])
      show "2 powi k \<le> v" if "- 1022 < k" using that by (rule low)
      show "v < 2 powi (k + 1)" if "k < 1024" using that up False by fastforce
    qed
    moreover have "v / P = of_int n" using P by (simp add: v)
    ultimately have "roundMag v = of_int n * P"
      by (simp only: roundMag_def Let_def P_def [symmetric] rhe_of_int)
    then show ?thesis by (simp add: v v_def [symmetric])
  qed
qed

section \<open>Rounding to binary64\<close>

lemma round64_pos: "0 < r \<Longrightarrow>
    round64 r = (if 2 ^ 1024 \<le> roundMag r then PosInf else Num (roundMag r))"
  by (simp add: round64_def Let_def)

lemma round64_neg: "r < 0 \<Longrightarrow>
    round64 r = (if 2 ^ 1024 \<le> roundMag (- r) then NegInf else Num (- roundMag (- r)))"
  by (simp add: round64_def Let_def)

lemma round64_zero [simp]: "round64 0 = Num 0"
  by (simp add: round64_def)

lemma round64_not_NaN [simp]: "round64 r \<noteq> NaN"
  by (simp add: round64_def Let_def)

lemma round64_nonneg: "0 \<le> r \<Longrightarrow> jge (round64 r) (Num 0)"
  by (cases "r = 0") (simp_all add: round64_pos roundMag_nonneg)

lemma round64_nonpos: "r \<le> 0 \<Longrightarrow> jge (Num 0) (round64 r)"
  by (cases "r = 0") (simp_all add: round64_neg roundMag_nonneg)

lemma jge_trans: "jge a b \<Longrightarrow> jge b c \<Longrightarrow> jge a c"
  by (cases a; cases b; cases c) simp_all

lemma jge_refl: "a \<noteq> NaN \<Longrightarrow> jge a a"
  by (cases a) simp_all

lemma jge_not_NaN: "jge a b \<Longrightarrow> a \<noteq> NaN \<and> b \<noteq> NaN"
  by (cases a; cases b) simp_all

lemma round64_mono:
  assumes "r \<le> r'"
  shows "jge (round64 r') (round64 r)"
proof -
  consider "r = r'" | "0 \<le> r" "r < r'" | "r < 0" "0 \<le> r'" | "r < r'" "r' < 0"
    using assms by linarith
  then show ?thesis
  proof cases
    case 1
    then show ?thesis by (simp add: jge_refl)
  next
    case 2
    then have m: "roundMag r \<le> roundMag r'" by (simp add: roundMag_mono)
    show ?thesis
    proof (cases "r = 0")
      case True
      then show ?thesis using round64_nonneg [of r'] 2 by simp
    next
      case False
      with 2 m show ?thesis by (simp add: round64_pos)
    qed
  next
    case 3
    then have "jge (Num 0) (round64 r)" "jge (round64 r') (Num 0)"
      by (simp_all add: round64_nonneg round64_nonpos)
    then show ?thesis by (rule jge_trans [rotated])
  next
    case 4
    then have "roundMag (- r') \<le> roundMag (- r)" by (simp add: roundMag_mono)
    with 4 show ?thesis by (simp add: round64_neg)
  qed
qed

lemma round64_idem: "round64 r = Num v \<Longrightarrow> round64 v = Num v"
proof -
  assume eq: "round64 r = Num v"
  consider "r = 0" | "0 < r" | "r < 0" by linarith
  then show ?thesis
  proof cases
    case 1
    with eq show ?thesis by auto
  next
    case 2
    with eq have v: "v = roundMag r" "roundMag r < 2 ^ 1024"
      by (auto simp: round64_pos split: if_splits)
    have "0 \<le> v" using 2 v by (simp add: roundMag_nonneg)
    moreover have "roundMag v = v" using 2 v by (simp add: roundMag_idem)
    ultimately show ?thesis using v by (cases "v = 0") (simp_all add: round64_pos)
  next
    case 3
    with eq have v: "v = - roundMag (- r)" "roundMag (- r) < 2 ^ 1024"
      by (auto simp: round64_neg split: if_splits)
    have "v \<le> 0" using 3 v by (simp add: roundMag_nonneg)
    moreover have "roundMag (- v) = - v" using 3 v by (simp add: roundMag_idem)
    ultimately show ?thesis using v by (cases "v = 0") (simp_all add: round64_neg)
  qed
qed

lemma isDouble_simps [simp]:
  "isDouble PosInf" "isDouble NegInf" "isDouble NaN" "isDouble (Num v) = (round64 v = Num v)"
  by (simp_all add: isDouble_def)

lemma isDouble_round64 [simp]: "isDouble (round64 r)"
  by (cases "round64 r") (auto dest: round64_idem)

lemma isDouble_fadd [simp]: "isDouble (fadd a b)"
  by (cases a; cases b) (simp_all add: fadd_def del: isDouble_simps(4))

lemma isDouble_fsub [simp]: "isDouble (fsub a b)"
  by (cases a; cases b) (simp_all add: fsub_def jsub_def del: isDouble_simps(4))

lemma isDouble_fmul [simp]: "isDouble (fmul a b)"
  by (cases a; cases b) (simp_all add: fmul_def infTimes_def del: isDouble_simps(4))

text \<open>The operations on the numbers that are not negative.\<close>

lemma nonneg_cases: "jge a (Num 0) \<Longrightarrow> a = PosInf \<or> (\<exists>u\<ge>0. a = Num u)"
  by (cases a) simp_all

lemma jge_Num_cases: "jge a' (Num u) \<Longrightarrow> a' = PosInf \<or> (\<exists>u'\<ge>u. a' = Num u')"
  by (cases a') simp_all

lemma jge_PosInf [simp]: "jge a' PosInf \<longleftrightarrow> a' = PosInf"
  by (cases a') simp_all

lemma jge_PosInf_left [simp]: "jge PosInf a \<longleftrightarrow> a \<noteq> NaN"
  by (cases a) simp_all

lemma jge_NegInf_right [simp]: "jge a NegInf \<longleftrightarrow> a \<noteq> NaN"
  by (cases a) simp_all

lemma fadd_nonneg: "jge a (Num 0) \<Longrightarrow> jge b (Num 0) \<Longrightarrow> jge (fadd a b) (Num 0)"
  by (cases a; cases b) (simp_all add: fadd_def round64_nonneg)

lemma fadd_mono:
  assumes "jge a' a" "jge b' b" "jge a (Num 0)" "jge b (Num 0)"
  shows "jge (fadd a' b') (fadd a b)"
proof -
  from assms(3,4) consider "a = PosInf" | "b = PosInf" | u v where "a = Num u" "b = Num v"
    by (auto dest!: nonneg_cases)
  then show ?thesis
  proof cases
    case 1
    with assms show ?thesis by (cases b; cases b') (simp_all add: fadd_def)
  next
    case 2
    with assms show ?thesis by (cases a; cases a') (simp_all add: fadd_def)
  next
    case 3
    with assms(1,2) consider "a' = PosInf" "b' \<noteq> NaN" "b' \<noteq> NegInf"
      | "b' = PosInf" "a' \<noteq> NaN" "a' \<noteq> NegInf"
      | u' v' where "a' = Num u'" "b' = Num v'" "u \<le> u'" "v \<le> v'"
      by (cases a'; cases b') auto
    then show ?thesis
    proof cases
      case 1
      then show ?thesis using 3 by (cases b') (simp_all add: fadd_def)
    next
      case 2
      then show ?thesis using 3 by (cases a') (simp_all add: fadd_def)
    next
      case 3
      then show ?thesis using \<open>a = Num u\<close> \<open>b = Num v\<close>
        by (simp add: fadd_def round64_mono)
    qed
  qed
qed

lemma fadd_increase:
  assumes "isDouble a" "jge a (Num 0)" "jge b (Num 0)"
  shows "jge (fadd a b) a"
proof -
  from assms(2,3) consider "a = PosInf" | "b = PosInf" "a \<noteq> PosInf"
    | u v where "a = Num u" "b = Num v" "0 \<le> v"
    by (auto dest!: nonneg_cases)
  then show ?thesis
  proof cases
    case 1
    with assms show ?thesis by (cases b) (simp_all add: fadd_def)
  next
    case 2
    with assms show ?thesis by (cases a) (simp_all add: fadd_def)
  next
    case 3
    then have "jge (round64 (u + v)) (round64 u)" by (intro round64_mono) simp
    with 3 assms(1) show ?thesis by (simp add: fadd_def)
  qed
qed


lemma fmul_const_mono:
  assumes "jge a b" "0 < k"
  shows "jge (fmul a (Num k)) (fmul b (Num k))"
proof -
  from assms(1) consider "a = PosInf" "b \<noteq> NaN" | "b = NegInf" "a \<noteq> NaN"
    | u v where "a = Num u" "b = Num v" "v \<le> u"
    by (cases a; cases b) auto
  then show ?thesis
  proof cases
    case 1
    then show ?thesis using assms(2) by (cases b) (simp_all add: fmul_def infTimes_def)
  next
    case 2
    then show ?thesis using assms(2) by (cases a) (simp_all add: fmul_def infTimes_def)
  next
    case 3
    then have "jge (round64 (u * k)) (round64 (v * k))"
      using assms(2) by (intro round64_mono) simp
    with 3 show ?thesis by (simp add: fmul_def)
  qed
qed



section \<open>Evaluating the rounding\<close>

text \<open>The halving and doubling of \<open>binade\<close> unfold on a numeral of steps.\<close>

lemma expUp_numeral:
  "expUp (numeral k) a = (if a < 2 then 0 else 1 + expUp (pred_numeral k) (a / 2))"
  by (simp add: numeral_eq_Suc)

lemma expDown_numeral:
  "expDown (numeral k) a = (if 1 \<le> a then 0 else expDown (pred_numeral k) (2 * a) - 1)"
  by (simp add: numeral_eq_Suc)

lemmas eval64 = round64_def roundMag_def binade_def rhe_def Let_def power_int_minus
  expUp_numeral expDown_numeral

lemma round64_100: "round64 100 = Num 100"
  by (simp add: eval64)

lemma fmul_zero_100 [simp]: "fmul (Num 0) (Num 100) = Num 0"
  by (simp add: fmul_def)

lemmas ops64 = fadd_def fsub_def fmul_def fdiv_def jsub_def infTimes_def

lemma literals64:
  "round64 (1 / 1000000) = Num (4722366482869645 / 2 ^ 72)"
  "round64 (1 / 100) = Num (5764607523034235 / 2 ^ 59)"
  "round64 (1 / 10) = Num (3602879701896397 / 2 ^ 55)"
  by (simp_all add: eval64)

section \<open>The sorted copy in binary64 arithmetic\<close>





section \<open>Accumulated sums in binary64 arithmetic\<close>





lemma foldl_fadd_if_le:
  assumes "\<forall>c\<in>set cs. jge (f c) (Num 0)" "jge b a" "jge a (Num 0)" "isDouble b"
  shows "jge (foldl (\<lambda>s c. fadd s (f c)) b cs)
             (foldl (\<lambda>s c. if P c then fadd s (f c) else s) a cs)
       \<and> jge (foldl (\<lambda>s c. if P c then fadd s (f c) else s) a cs) (Num 0)"
  using assms
proof (induction cs arbitrary: a b)
  case Nil
  then show ?case by simp
next
  case (Cons c cs)
  have fc: "jge (f c) (Num 0)" using Cons.prems by simp
  have b0: "jge b (Num 0)" using Cons.prems by (blast intro: jge_trans)
  have dbl: "isDouble (fadd b (f c))" by simp
  show ?case
  proof (cases "P c")
    case True
    have "jge (fadd b (f c)) (fadd a (f c))" "jge (fadd a (f c)) (Num 0)"
      using Cons.prems fc by (simp_all add: fadd_mono fadd_nonneg jge_refl jge_not_NaN)
    then have "jge (foldl (\<lambda>s c. fadd s (f c)) (fadd b (f c)) cs)
             (foldl (\<lambda>s c. if P c then fadd s (f c) else s) (fadd a (f c)) cs)
       \<and> jge (foldl (\<lambda>s c. if P c then fadd s (f c) else s) (fadd a (f c)) cs) (Num 0)"
      using Cons.prems dbl by (intro Cons.IH) simp_all
    with True show ?thesis by simp
  next
    case False
    have "jge (fadd b (f c)) b" using Cons.prems fc b0 by (simp add: fadd_increase)
    then have "jge (fadd b (f c)) a" using Cons.prems by (blast intro: jge_trans)
    then have "jge (foldl (\<lambda>s c. fadd s (f c)) (fadd b (f c)) cs)
             (foldl (\<lambda>s c. if P c then fadd s (f c) else s) a cs)
       \<and> jge (foldl (\<lambda>s c. if P c then fadd s (f c) else s) a cs) (Num 0)"
      using Cons.prems dbl by (intro Cons.IH) simp_all
    with False show ?thesis by simp
  qed
qed

section \<open>The example distribution 5, 3, 2\<close>

text \<open>
  Three cards worth \<open>1\<close>, \<open>10\<close> and \<open>100\<close> with the probabilities \<open>5\<close>, \<open>3\<close> and \<open>2\<close>: the
  scale is the binary64 number nearest to \<open>0.1\<close>.
\<close>

lemma example_scale:
  "probabilityScale64 [mkCard 1 5, mkCard 10 3, mkCard 100 2] = Num (3602879701896397 / 2 ^ 55)"
proof -
  have raw: "rawSum64 [mkCard 1 5, mkCard 10 3, mkCard 100 2] = Num 10"
    by (simp add: rawSum64_def mkCard_def ops64 eval64)
  show ?thesis
    unfolding probabilityScale64_def raw by (simp add: ops64 literals64 eval64)
qed

lemma example_scaled:
  "map (scaledProb64 (Num (3602879701896397 / 2 ^ 55))) [mkCard 1 5, mkCard 10 3, mkCard 100 2]
     = [Num (1 / 2), Num (1351079888211149 / 2 ^ 52), Num (3602879701896397 / 2 ^ 54)]"
  by (simp add: scaledProb64_def mkCard_def ops64 eval64)

lemma example_nonneg:
  "\<forall>c\<in>set [mkCard 1 5, mkCard 10 3, mkCard 100 2].
     finiteNonneg (scaledProb64 (Num (3602879701896397 / 2 ^ 55)) c)"
  using example_scaled by (simp add: finiteNonneg_def)

lemma example_total:
  "totalScaled64 [mkCard 1 5, mkCard 10 3, mkCard 100 2] (Num (3602879701896397 / 2 ^ 55)) = Num 1"
  by (simp add: totalScaled64_def scaledProb64_def mkCard_def ops64 eval64)

section \<open>The odds over cost\<close>

lemma oddsSum64_le_total:
  assumes "\<forall>c\<in>set cards. jge (scaledProb64 scale c) (Num 0)"
  shows "jge (totalScaled64 cards scale) (oddsSum64 cards cost scale)
       \<and> jge (oddsSum64 cards cost scale) (Num 0)"
proof -
  have "oddsSum64 cards cost scale
      = foldl (\<lambda>s c. if jge (fmv c) cost then fadd s (scaledProb64 scale c) else s) (Num 0) cards"
    unfolding oddsSum64_def scaledProb64_def ..
  then show ?thesis
    unfolding totalScaled64_def using foldl_fadd_if_le [OF assms, of "Num 0" "Num 0"] by simp
qed

text \<open>
  Claim C6 says that \<open>oddsOverCost\<close> lies in \<open>[0, 100]\<close> when the scaled probabilities sum
  to \<open>1\<close>.  Eight cards with the probabilities \<open>1/2\<close>, six times \<open>3/2^55\<close> and
  \<open>1/2 - 9/2^54\<close>, all of them binary64 numbers: they sum to exactly \<open>1\<close>, the raw sum
  that the code accumulates is \<open>1 + 2^-52\<close>, the scale is \<open>1\<close>, every scaled probability is
  the probability itself, and at a price below every \<open>fmv\<close> the code returns
  \<open>100.00000000000003\<close>.
\<close>

theorem oddsOverCost_counterexample:
  "probabilityScale64
     [mkCard 10 (1 / 2), mkCard 10 (3 / 2 ^ 55), mkCard 10 (3 / 2 ^ 55), mkCard 10 (3 / 2 ^ 55),
      mkCard 10 (3 / 2 ^ 55), mkCard 10 (3 / 2 ^ 55), mkCard 10 (3 / 2 ^ 55),
      mkCard 10 (1 / 2 - 9 / 2 ^ 54)] = Num 1
   \<and> map (scaledProb64 (Num 1))
     [mkCard 10 (1 / 2), mkCard 10 (3 / 2 ^ 55), mkCard 10 (3 / 2 ^ 55), mkCard 10 (3 / 2 ^ 55),
      mkCard 10 (3 / 2 ^ 55), mkCard 10 (3 / 2 ^ 55), mkCard 10 (3 / 2 ^ 55),
      mkCard 10 (1 / 2 - 9 / 2 ^ 54)]
     = [Num (1 / 2), Num (3 / 2 ^ 55), Num (3 / 2 ^ 55), Num (3 / 2 ^ 55), Num (3 / 2 ^ 55),
        Num (3 / 2 ^ 55), Num (3 / 2 ^ 55), Num (1 / 2 - 9 / 2 ^ 54)]
   \<and> (1 / 2 + 3 / 2 ^ 55 + 3 / 2 ^ 55 + 3 / 2 ^ 55 + 3 / 2 ^ 55 + 3 / 2 ^ 55 + 3 / 2 ^ 55
        + (1 / 2 - 9 / 2 ^ 54) = (1::real))
   \<and> oddsOverCost (computeMetrics64
     [mkCard 10 (1 / 2), mkCard 10 (3 / 2 ^ 55), mkCard 10 (3 / 2 ^ 55), mkCard 10 (3 / 2 ^ 55),
      mkCard 10 (3 / 2 ^ 55), mkCard 10 (3 / 2 ^ 55), mkCard 10 (3 / 2 ^ 55),
      mkCard 10 (1 / 2 - 9 / 2 ^ 54)] (Num 5)) = Num (3518437208883201 / 35184372088832)
   \<and> \<not> jge (Num 100) (Num (3518437208883201 / 35184372088832))"
proof -
  let ?cs = "[mkCard 10 (1 / 2), mkCard 10 (3 / 2 ^ 55), mkCard 10 (3 / 2 ^ 55), mkCard 10 (3 / 2 ^ 55),
      mkCard 10 (3 / 2 ^ 55), mkCard 10 (3 / 2 ^ 55), mkCard 10 (3 / 2 ^ 55),
      mkCard 10 (1 / 2 - 9 / 2 ^ 54)]"
  have raw: "rawSum64 ?cs = Num (4503599627370497 / 4503599627370496)"
    by (simp add: rawSum64_def mkCard_def ops64 eval64)
  have scale: "probabilityScale64 ?cs = Num 1"
    unfolding probabilityScale64_def raw by (simp add: ops64 literals64 eval64)
  have scaled: "map (scaledProb64 (Num 1)) ?cs
     = [Num (1 / 2), Num (3 / 2 ^ 55), Num (3 / 2 ^ 55), Num (3 / 2 ^ 55), Num (3 / 2 ^ 55),
        Num (3 / 2 ^ 55), Num (3 / 2 ^ 55), Num (1 / 2 - 9 / 2 ^ 54)]"
    by (simp add: scaledProb64_def mkCard_def ops64 eval64)
  have odds: "oddsOverCost (computeMetrics64 ?cs (Num 5)) = Num (3518437208883201 / 35184372088832)"
    unfolding computeMetrics64_def Let_def scale
    by (simp add: oddsSum64_def mkCard_def ops64 eval64)
  show ?thesis
    by (simp only: scale scaled odds) simp
qed

text \<open>
  Claim C6, amended.  For every distribution whose scaled probabilities, at the scale of
  the normalizer, are numbers that are not negative, and for every price, \<open>oddsOverCost\<close>
  is at least \<open>0\<close> and at most \<open>100\<close> times the sum of all scaled probabilities as the code
  accumulates it in the order of the cards; so it is at most \<open>100\<close> whenever that
  accumulated sum is at most \<open>1\<close>.
\<close>

theorem oddsOverCost64_bounds:
  fixes cards :: "card list" and priceUsd :: jsnum
  defines "scale \<equiv> probabilityScale64 cards"
  defines "odds \<equiv> oddsOverCost (computeMetrics64 cards priceUsd)"
  assumes "\<forall>c\<in>set cards. jge (scaledProb64 scale c) (Num 0)"
  shows "jge odds (Num 0)
       \<and> jge (fmul (totalScaled64 cards scale) (Num 100)) odds
       \<and> (jge (Num 1) (totalScaled64 cards scale) \<longrightarrow> jge (Num 100) odds)"
proof -
  have odds: "odds = fmul (oddsSum64 cards priceUsd scale) (Num 100)"
    by (simp add: odds_def scale_def computeMetrics64_def Let_def)
  from oddsSum64_le_total [OF assms(3)]
  have le: "jge (totalScaled64 cards scale) (oddsSum64 cards priceUsd scale)"
    and ge: "jge (oddsSum64 cards priceUsd scale) (Num 0)" by blast+
  have 1: "jge odds (Num 0)"
    using fmul_const_mono [OF ge, of 100] by (simp add: odds)
  have 2: "jge (fmul (totalScaled64 cards scale) (Num 100)) odds"
    using fmul_const_mono [OF le, of 100] by (simp add: odds)
  have 3: "jge (Num 100) odds" if "jge (Num 1) (totalScaled64 cards scale)"
  proof -
    have "jge (fmul (Num 1) (Num 100)) (fmul (totalScaled64 cards scale) (Num 100))"
      using that by (rule fmul_const_mono) simp
    then have "jge (Num 100) (fmul (totalScaled64 cards scale) (Num 100))"
      by (simp add: fmul_def round64_100)
    then show ?thesis using 2 by (rule jge_trans)
  qed
  from 1 2 3 show ?thesis by blast
qed

theorem oddsOverCost64_bounds_witness:
  "oddsOverCost (computeMetrics64 [mkCard 1 5, mkCard 10 3, mkCard 100 2] (Num 5)) = Num 50
   \<and> totalScaled64 [mkCard 1 5, mkCard 10 3, mkCard 100 2]
        (probabilityScale64 [mkCard 1 5, mkCard 10 3, mkCard 100 2]) = Num 1
   \<and> jge (Num 50) (Num 0) \<and> jge (Num 100) (Num 50)"
proof -
  let ?cs = "[mkCard 1 5, mkCard 10 3, mkCard 100 2]"
  have odds: "oddsOverCost (computeMetrics64 ?cs (Num 5)) = Num 50"
    unfolding computeMetrics64_def Let_def example_scale
    by (simp add: oddsSum64_def mkCard_def ops64 eval64)
  have h: "\<forall>c\<in>set ?cs. jge (scaledProb64 (probabilityScale64 ?cs) c) (Num 0)"
    unfolding example_scale using example_nonneg by (simp add: finiteNonneg_def)
  from oddsOverCost64_bounds [OF h, of "Num 5"] show ?thesis
    unfolding odds example_scale example_total by simp
qed

section \<open>The expected value\<close>






section \<open>The tail probabilities of the curve\<close>






end
